theory Spec2Isabelle
  imports Complex_Main "HOL-Library.Word"
begin

unbundle bit_operations_syntax

section \<open>The GPS telemetry receiver (receiver.cpp)\<close>

text \<open>
  The receiver reads byte chunks from one TCP connection, appends them to
  \<open>metrics.buffer\<close>, cuts the buffer into records of \<open>MSG_SIZE\<close> bytes, decodes
  each record with \<open>unpack_data\<close> and updates the delay statistics.

  Conventions of the embedding:
  \<^item> \<open>char\<close> is a byte, \<open>8 word\<close>; \<open>uint32_t\<close> and \<open>uint64_t\<close> are \<open>32 word\<close> and
    \<open>64 word\<close>; \<open>int\<close> is a \<open>32 word\<close> read with \<open>sint\<close>; \<open>size_t\<close> is a \<open>64 word\<close>.
  \<^item> The host is little-endian (the byte order on which \<open>ntohl\<close> and \<open>be64toh\<close> swap).
  \<^item> A finite \<open>float\<close> or \<open>double\<close> is the real number it denotes. The conversion of
    an unsigned integer to \<open>float\<close> / \<open>double\<close> rounds to 24 / 53 significant bits
    (nearest, ties to even) and is modelled exactly. The three arithmetic
    operations of \<open>calculate_latency\<close> and the average are taken in exact real
    arithmetic; their rounding is not modelled.
  \<^item> The socket and the clock are the environment: the results of successive
    \<open>read\<close> calls are a list of chunks, the readings of \<open>system_clock::now()\<close> in
    \<open>calculate_latency\<close> are a function of the call's ordinal.
\<close>

subsection \<open>Constants\<close>

definition MSG_SIZE :: nat where
  "MSG_SIZE = 24"

definition DELAY_WINDOW :: nat where
  "DELAY_WINDOW = 5"

subsection \<open>Byte order\<close>

type_synonym byte = "8 word"

text \<open>\<open>memcpy(&temp, data + off, 4)\<close> on a little-endian host.\<close>

definition memcpy_u32 :: "byte list \<Rightarrow> nat \<Rightarrow> 32 word" where
  "memcpy_u32 d off =
     ucast (d ! off)
     OR push_bit 8 (ucast (d ! (off + 1)))
     OR push_bit 16 (ucast (d ! (off + 2)))
     OR push_bit 24 (ucast (d ! (off + 3)))"

text \<open>\<open>memcpy(&timestamp_temp, data + off, 8)\<close> on a little-endian host.\<close>

definition memcpy_u64 :: "byte list \<Rightarrow> nat \<Rightarrow> 64 word" where
  "memcpy_u64 d off =
     ucast (d ! off)
     OR push_bit 8 (ucast (d ! (off + 1)))
     OR push_bit 16 (ucast (d ! (off + 2)))
     OR push_bit 24 (ucast (d ! (off + 3)))
     OR push_bit 32 (ucast (d ! (off + 4)))
     OR push_bit 40 (ucast (d ! (off + 5)))
     OR push_bit 48 (ucast (d ! (off + 6)))
     OR push_bit 56 (ucast (d ! (off + 7)))"

text \<open>\<open>ntohl\<close> and \<open>be64toh\<close> reverse the bytes of their argument.\<close>

definition ntohl :: "32 word \<Rightarrow> 32 word" where
  "ntohl x =
     push_bit 24 (x AND 0xFF)
     OR push_bit 8 (x AND 0xFF00)
     OR (drop_bit 8 x AND 0xFF00)
     OR (drop_bit 24 x AND 0xFF)"

definition be64toh :: "64 word \<Rightarrow> 64 word" where
  "be64toh x =
     push_bit 56 (x AND 0xFF)
     OR push_bit 40 (x AND 0xFF00)
     OR push_bit 24 (x AND 0xFF0000)
     OR push_bit 8 (x AND 0xFF000000)
     OR (drop_bit 8 x AND 0xFF000000)
     OR (drop_bit 24 x AND 0xFF0000)
     OR (drop_bit 40 x AND 0xFF00)
     OR (drop_bit 56 x AND 0xFF)"

subsection \<open>Integer to floating-point conversion\<close>

text \<open>The number of binary digits of \<open>n\<close>.\<close>

fun bit_length :: "nat \<Rightarrow> nat" where
  "bit_length n = (if n = 0 then 0 else Suc (bit_length (n div 2)))"

declare bit_length.simps [simp del]

text \<open>
  Rounding of a non-negative integer to \<open>p\<close> significant bits, to nearest and
  ties to even: what the assignment of an unsigned integer to a \<open>float\<close>
  (\<open>p = 24\<close>) or a \<open>double\<close> (\<open>p = 53\<close>) does.
\<close>

definition round_to_precision :: "nat \<Rightarrow> nat \<Rightarrow> nat" where
  "round_to_precision p n =
     (let e = bit_length n - p;
          q = n div 2 ^ e;
          r = n mod 2 ^ e
      in if 2 ^ e < 2 * r \<or> (2 * r = 2 ^ e \<and> odd q) then (q + 1) * 2 ^ e else q * 2 ^ e)"

definition float_of_u32 :: "32 word \<Rightarrow> real" where
  "float_of_u32 w = real (round_to_precision 24 (unat w))"

definition double_of_u64 :: "64 word \<Rightarrow> real" where
  "double_of_u64 w = real (round_to_precision 53 (unat w))"

subsection \<open>Decoding one record\<close>

record GPSData =
  lat :: real
  lon :: real
  alt :: real
  timestamp :: real

definition unpack_data :: "byte list \<Rightarrow> GPSData" where
  "unpack_data d =
     \<lparr> lat = float_of_u32 (ntohl (memcpy_u32 d 0)),
       lon = float_of_u32 (ntohl (memcpy_u32 d 4)),
       alt = float_of_u32 (ntohl (memcpy_u32 d 8)),
       timestamp = double_of_u64 (be64toh (memcpy_u64 d 12)) \<rparr>"

subsection \<open>Delay statistics\<close>

text \<open>
  A \<open>double\<close> that may be infinite: \<open>metrics.min_delay\<close> starts at
  \<open>numeric_limits<double>::infinity()\<close>. No NaN arises in the receiver (every
  latency is a finite difference of finite values), so the type has none.
\<close>

datatype double = Finite real | PosInf | NegInf

fun double_less :: "double \<Rightarrow> double \<Rightarrow> bool" where
  "double_less (Finite a) (Finite b) = (a < b)"
| "double_less (Finite a) PosInf = True"
| "double_less NegInf (Finite b) = True"
| "double_less NegInf PosInf = True"
| "double_less a b = False"

definition double_le :: "double \<Rightarrow> double \<Rightarrow> bool" where
  "double_le a b = (a = b \<or> double_less a b)"

text \<open>\<open>std::max(a, b)\<close> is \<open>(a < b) ? b : a\<close>; \<open>std::min(a, b)\<close> is \<open>(b < a) ? b : a\<close>.\<close>

definition std_max :: "double \<Rightarrow> double \<Rightarrow> double" where
  "std_max a b = (if double_less a b then b else a)"

definition std_min :: "double \<Rightarrow> double \<Rightarrow> double" where
  "std_min a b = (if double_less b a then b else a)"

text \<open>
  \<open>calculate_latency\<close>: \<open>now_ms\<close> is the clock's reading, the count of
  milliseconds since the epoch.
\<close>

definition calculate_latency :: "int \<Rightarrow> real \<Rightarrow> real" where
  "calculate_latency now_ms sent_ts =
     (let current_ts = real_of_int now_ms / 1000
      in (current_ts - sent_ts) * 1000)"

text \<open>\<open>std::accumulate(first, last, 0.0)\<close> adds from the left.\<close>

definition accumulate :: "real list \<Rightarrow> real \<Rightarrow> real" where
  "accumulate xs init = foldl (+) init xs"

subsection \<open>The receiver's state\<close>

text \<open>
  What \<open>display\<close> prints of the program's data: its arguments \<open>data\<close>,
  \<open>current_delay\<close> and \<open>avg_delay\<close>, and the two items of \<open>metrics\<close> it reads.
  (It ignores \<open>old_coords\<close>; the peer address and the time of day it prints do
  not depend on the stream.)
\<close>

record display_event =
  shown_data :: GPSData
  shown_current_delay :: real
  shown_avg_delay :: real
  shown_total_bytes :: "64 word"
  shown_buffer_size :: nat

text \<open>
  The global \<open>metrics\<close>, the local \<open>delay_avg\<close> of \<open>start_receiver\<close>, and two
  fields that record the interaction with the environment: the number of clock
  readings taken so far by \<open>calculate_latency\<close> and the calls of \<open>display\<close>.
\<close>

record receiver_state =
  total_received :: "32 word"
  corrupted_packets :: "32 word"
  max_delay :: double
  min_delay :: double
  delay_history :: "real list"
  buffer :: "byte list"
  total_bytes :: "64 word"
  delay_avg :: "real list"
  clock_reads :: nat
  displayed :: "display_event list"

definition initial_state :: receiver_state where
  "initial_state =
     \<lparr> total_received = 0,
       corrupted_packets = 0,
       max_delay = Finite 0,
       min_delay = PosInf,
       delay_history = [],
       buffer = [],
       total_bytes = 0,
       delay_avg = [],
       clock_reads = 0,
       displayed = [] \<rparr>"

subsection \<open>The loops of \<open>start_receiver\<close>\<close>

text \<open>
  \<open>start_receiver\<close> is embedded in four parts, innermost first. The socket
  set-up before the loops has no part in the claims and is left out.

  The body of the inner \<open>while\<close> loop (lines 170 to 194): decode the record at
  the front of the buffer, erase it, compute the latency and update the
  statistics, then display. \<open>clock k\<close> is the reading of the clock at its
  \<open>k\<close>-th use. The loop runs its body only when the buffer holds at least
  \<open>MSG_SIZE\<close> bytes, so \<open>unpack_data\<close> never reads past the end. The string
  \<open>old_coords\<close> is only passed to \<open>display\<close>, which ignores it, and is left out.
\<close>

definition process_frame :: "(nat \<Rightarrow> int) \<Rightarrow> receiver_state \<Rightarrow> receiver_state" where
  "process_frame clock s =
     (let data = unpack_data (buffer s);
          buffer' = drop MSG_SIZE (buffer s);
          latency = calculate_latency (clock (clock_reads s)) (timestamp data);
          pushed = delay_avg s @ [latency];
          delay_avg' = (if DELAY_WINDOW < length pushed then tl pushed else pushed);
          avg_delay = (if delay_avg' \<noteq> []
                       then accumulate delay_avg' 0 / real (length delay_avg') else 0);
          s' = s \<lparr> buffer := buffer',
                   delay_avg := delay_avg',
                   clock_reads := Suc (clock_reads s),
                   total_received := total_received s + 1,
                   max_delay := std_max (max_delay s) (Finite latency),
                   min_delay := std_min (min_delay s) (Finite latency),
                   delay_history := delay_history s @ [latency] \<rparr>
      in s' \<lparr> displayed := displayed s' @
                 [\<lparr> shown_data = data,
                    shown_current_delay = latency,
                    shown_avg_delay = avg_delay,
                    shown_total_bytes = total_bytes s',
                    shown_buffer_size = length (buffer s') \<rparr>] \<rparr>)"

text \<open>The inner loop (line 169): \<open>while (metrics.buffer.size() >= MSG_SIZE)\<close>.\<close>

function drain :: "(nat \<Rightarrow> int) \<Rightarrow> receiver_state \<Rightarrow> receiver_state" where
  "drain clock s =
     (if MSG_SIZE \<le> length (buffer s) then drain clock (process_frame clock s) else s)"
  by pat_completeness auto
termination
  by (relation "measure (\<lambda>(clock, s). length (buffer s))")
     (auto simp: process_frame_def Let_def MSG_SIZE_def)

declare drain.simps [simp del]

text \<open>
  One pass of the outer loop after a \<open>read\<close> that returned the bytes \<open>chunk\<close>
  (\<open>valread = length chunk\<close>, positive): count them, append them (lines 166
  and 167), drain. A \<open>read\<close> into the 1024-byte array returns at most 1024
  bytes; nothing below depends on that bound, so \<open>chunk\<close> is any byte list.
\<close>

definition on_read :: "(nat \<Rightarrow> int) \<Rightarrow> byte list \<Rightarrow> receiver_state \<Rightarrow> receiver_state" where
  "on_read clock chunk s =
     drain clock (s \<lparr> total_bytes := total_bytes s + of_nat (length chunk),
                      buffer := buffer s @ chunk \<rparr>)"

text \<open>
  The outer loop (lines 158 to 196) over the results of the successive
  \<open>read\<close> calls. An empty result stands for \<open>valread <= 0\<close>, which leaves
  the loop; so does the end of the list.
\<close>

fun receive_loop :: "(nat \<Rightarrow> int) \<Rightarrow> byte list list \<Rightarrow> receiver_state \<Rightarrow> receiver_state" where
  "receive_loop clock [] s = s"
| "receive_loop clock (chunk # chunks) s =
     (if chunk = [] then s else receive_loop clock chunks (on_read clock chunk s))"

text \<open>The records decoded so far, in the order of their decoding.\<close>

definition decoded :: "receiver_state \<Rightarrow> GPSData list" where
  "decoded s = map shown_data (displayed s)"

subsection \<open>Reference functions for the stream\<close>

text \<open>
  Two functions of a byte sequence alone, against which the loops are
  compared: the records decoded from it when it is cut at every \<open>MSG_SIZE\<close>
  bytes, and the incomplete tail that is left.
\<close>

function fixes_of :: "byte list \<Rightarrow> GPSData list" where
  "fixes_of bs =
     (if MSG_SIZE \<le> length bs then unpack_data bs # fixes_of (drop MSG_SIZE bs) else [])"
  by pat_completeness auto
termination
  by (relation "measure length") (auto simp: MSG_SIZE_def)

declare fixes_of.simps [simp del]

definition leftover :: "byte list \<Rightarrow> byte list" where
  "leftover bs = drop (MSG_SIZE * (length bs div MSG_SIZE)) bs"

text \<open>The latency that \<open>process_frame\<close> computes for the record at the front of the buffer.\<close>

definition next_latency :: "(nat \<Rightarrow> int) \<Rightarrow> receiver_state \<Rightarrow> real" where
  "next_latency clock s =
     calculate_latency (clock (clock_reads s)) (timestamp (unpack_data (buffer s)))"

text \<open>
  The invariant that links the two records of delay samples: \<open>delay_history\<close>
  lists the delay of every call of \<open>display\<close>, and \<open>delay_avg\<close> is its last
  \<open>DELAY_WINDOW\<close> entries.
\<close>

definition history_kept :: "receiver_state \<Rightarrow> bool" where
  "history_kept s \<longleftrightarrow>
     delay_history s = map shown_current_delay (displayed s)
     \<and> delay_avg s = drop (length (delay_history s) - DELAY_WINDOW) (delay_history s)"

text \<open>
  The counters after \<open>n\<close> bytes have been read: \<open>total_bytes\<close> is \<open>n\<close> as a
  \<open>size_t\<close>, \<open>total_received\<close> is the number of complete records as an
  \<open>int\<close>, and the buffer holds the incomplete tail.
\<close>

definition counters_track :: "nat \<Rightarrow> receiver_state \<Rightarrow> bool" where
  "counters_track n s \<longleftrightarrow>
     total_bytes s = of_nat n
     \<and> total_received s = of_nat (n div MSG_SIZE)
     \<and> length (buffer s) = n mod MSG_SIZE"

subsection \<open>IEEE-754 bit patterns and concrete inputs\<close>

text \<open>
  The value that a bit pattern denotes in an IEEE-754 binary format with
  \<open>ebits\<close> exponent bits and \<open>mbits\<close> fraction bits (\<open>None\<close> for infinities and
  NaN). The receiver contains no such function; it is here to say what a frame
  encodes.
\<close>

definition ieee754_value :: "nat \<Rightarrow> nat \<Rightarrow> nat \<Rightarrow> real option" where
  "ieee754_value ebits mbits n =
     (let m = n mod 2 ^ mbits;
          e = (n div 2 ^ mbits) mod 2 ^ ebits;
          negative = odd (n div 2 ^ (mbits + ebits));
          bias = 2 ^ (ebits - 1) - 1;
          significand = (if e = 0 then real m else real (2 ^ mbits + m));
          k = (if e = 0 then 1 else e);
          magnitude = (if bias + mbits \<le> k then significand * 2 ^ (k - (bias + mbits))
                       else significand / 2 ^ (bias + mbits - k))
      in if e = 2 ^ ebits - 1 then None
         else Some (if negative then - magnitude else magnitude))"

definition float_bits_value :: "32 word \<Rightarrow> real option" where
  "float_bits_value w = ieee754_value 8 23 (unat w)"

definition double_bits_value :: "64 word \<Rightarrow> real option" where
  "double_bits_value w = ieee754_value 11 52 (unat w)"

text \<open>
  A record as a sender of three floats and a double writes it: the bit
  patterns of 37.422, -122.084 and 30.0 in binary32 and of 1700000000.0 in
  binary64, each in network byte order, and four bytes that \<open>unpack_data\<close>
  does not read.
\<close>

definition fix_frame :: "byte list" where
  "fix_frame =
     [0x42, 0x15, 0xB0, 0x21,
      0xC2, 0xF4, 0x2B, 0x02,
      0x41, 0xF0, 0x00, 0x00,
      0x41, 0xD9, 0x54, 0xFC, 0x40, 0x00, 0x00, 0x00,
      0x00, 0x00, 0x00, 0x00]"

text \<open>
  A record whose last field is the integer 1700000001, one second after the
  clock reading 1700000000000 ms used with it below.
\<close>

definition late_frame :: "byte list" where
  "late_frame =
     [0x42, 0x15, 0xB0, 0x21,
      0xC2, 0xF4, 0x2B, 0x02,
      0x41, 0xF0, 0x00, 0x00,
      0x00, 0x00, 0x00, 0x00, 0x65, 0x53, 0xF1, 0x01,
      0x00, 0x00, 0x00, 0x00]"

text \<open>A state with five samples in the window and \<open>late_frame\<close> in the buffer.\<close>

definition five_samples :: receiver_state where
  "five_samples = initial_state \<lparr> delay_avg := [10, 20, 30, 40, 50],
                                    delay_history := [10, 20, 30, 40, 50],
                                    buffer := late_frame,
                                    total_received := 5,
                                    total_bytes := 144,
                                    clock_reads := 5 \<rparr>"

text \<open>
  \<open>2 ^ 31\<close> reads of one record each: one record more than an \<open>int\<close> counts.
  (The increment of \<open>total_received\<close> past \<open>INT_MAX\<close> is undefined in C++;
  the embedding takes the two's-complement result of the machine's addition.)
\<close>

definition many_frames :: "byte list list" where
  "many_frames = replicate (2 ^ 31) (replicate 24 0)"

section \<open>Properties of the inner loop\<close>

lemma unpack_data_append:
  assumes "MSG_SIZE \<le> length b"
  shows "unpack_data (b @ c) = unpack_data b"
proof -
  have front: "\<And>i. i < 20 \<Longrightarrow> (b @ c) ! i = b ! i"
    using assms by (simp add: nth_append MSG_SIZE_def)
  show ?thesis
    by (simp add: unpack_data_def memcpy_u32_def memcpy_u64_def front)
qed

lemma buffer_process_frame [simp]:
  "buffer (process_frame clock s) = drop MSG_SIZE (buffer s)"
  by (simp add: process_frame_def Let_def)

lemma decoded_process_frame [simp]:
  "decoded (process_frame clock s) = decoded s @ [unpack_data (buffer s)]"
  by (simp add: process_frame_def Let_def decoded_def)

lemma leftover_short: "length bs < MSG_SIZE \<Longrightarrow> leftover bs = bs"
  by (simp add: leftover_def)

lemma leftover_step:
  assumes "MSG_SIZE \<le> length bs"
  shows "leftover (drop MSG_SIZE bs) = leftover bs"
proof -
  have "(length bs - MSG_SIZE) div MSG_SIZE = length bs div MSG_SIZE - 1"
    using assms by (simp add: MSG_SIZE_def)
  moreover have "1 \<le> length bs div MSG_SIZE"
    using assms by (simp add: MSG_SIZE_def)
  ultimately have "MSG_SIZE * ((length bs - MSG_SIZE) div MSG_SIZE) + MSG_SIZE
                   = MSG_SIZE * (length bs div MSG_SIZE)"
    by (simp add: algebra_simps MSG_SIZE_def)
  then show ?thesis
    by (simp add: leftover_def)
qed

lemma length_leftover: "length (leftover bs) = length bs mod MSG_SIZE"
  by (simp add: leftover_def MSG_SIZE_def minus_mult_div_eq_mod)

lemma buffer_drain: "buffer (drain clock s) = leftover (buffer s)"
proof (induction clock s rule: drain.induct)
  case (1 clock s)
  show ?case
  proof (cases "MSG_SIZE \<le> length (buffer s)")
    case True
    then show ?thesis
      using "1.IH" by (simp add: drain.simps [of clock s] leftover_step)
  next
    case False
    then show ?thesis
      by (simp add: drain.simps [of clock s] leftover_short)
  qed
qed

lemma decoded_drain: "decoded (drain clock s) = decoded s @ fixes_of (buffer s)"
proof (induction clock s rule: drain.induct)
  case (1 clock s)
  show ?case
  proof (cases "MSG_SIZE \<le> length (buffer s)")
    case True
    then show ?thesis
      using "1.IH" by (simp add: drain.simps [of clock s] fixes_of.simps [of "buffer s"])
  next
    case False
    then show ?thesis
      by (simp add: drain.simps [of clock s] fixes_of.simps [of "buffer s"])
  qed
qed

lemma fixes_of_append: "fixes_of (b @ c) = fixes_of b @ fixes_of (leftover b @ c)"
proof (induction b rule: fixes_of.induct)
  case (1 bs)
  show ?case
  proof (cases "MSG_SIZE \<le> length bs")
    case True
    then have "fixes_of (bs @ c) = unpack_data bs # fixes_of (drop MSG_SIZE bs @ c)"
      by (simp add: fixes_of.simps [of "bs @ c"] unpack_data_append)
    also have "\<dots> = unpack_data bs # fixes_of (drop MSG_SIZE bs) @ fixes_of (leftover bs @ c)"
      using True "1.IH" by (simp add: leftover_step)
    finally show ?thesis
      using True by (simp add: fixes_of.simps [of bs])
  next
    case False
    then show ?thesis
      by (simp add: fixes_of.simps [of bs] leftover_short)
  qed
qed

section \<open>Properties of one read\<close>

lemma buffer_on_read: "buffer (on_read clock chunk s) = leftover (buffer s @ chunk)"
  by (simp add: on_read_def buffer_drain)

lemma length_buffer_on_read: "length (buffer (on_read clock chunk s)) < MSG_SIZE"
  by (simp add: buffer_on_read length_leftover MSG_SIZE_def)

lemma decoded_on_read:
  "decoded (on_read clock chunk s) = decoded s @ fixes_of (buffer s @ chunk)"
proof -
  have "decoded (s \<lparr> total_bytes := total_bytes s + of_nat (length chunk),
                      buffer := buffer s @ chunk \<rparr>) = decoded s"
    by (simp add: decoded_def)
  then show ?thesis
    by (simp add: on_read_def decoded_drain)
qed

lemma decoded_receive_loop:
  "[] \<notin> set chunks \<Longrightarrow> length (buffer s) < MSG_SIZE \<Longrightarrow>
   decoded (receive_loop clock chunks s) = decoded s @ fixes_of (buffer s @ concat chunks)"
proof (induction chunks arbitrary: s)
  case Nil
  then show ?case by (simp add: fixes_of.simps [of "buffer s"])
next
  case (Cons c cs)
  then have c: "c \<noteq> []" and cs: "[] \<notin> set cs"
    by auto
  let ?s = "on_read clock c s"
  have "decoded (receive_loop clock (c # cs) s) = decoded (receive_loop clock cs ?s)"
    using c by simp
  also have "\<dots> = decoded ?s @ fixes_of (buffer ?s @ concat cs)"
    by (rule Cons.IH [OF cs length_buffer_on_read])
  also have "\<dots> = decoded s @
      (fixes_of (buffer s @ c) @ fixes_of (leftover (buffer s @ c) @ concat cs))"
    by (simp add: decoded_on_read buffer_on_read)
  also have "\<dots> = decoded s @ fixes_of ((buffer s @ c) @ concat cs)"
    by (simp only: fixes_of_append [of "buffer s @ c" "concat cs", symmetric])
  finally show ?case
    by simp
qed

section \<open>Properties of the loop body\<close>

lemma delay_avg_process_frame:
  "delay_avg (process_frame clock s) =
     (if DELAY_WINDOW < Suc (length (delay_avg s))
      then tl (delay_avg s @ [next_latency clock s])
      else delay_avg s @ [next_latency clock s])"
  by (simp add: process_frame_def Let_def next_latency_def)

lemma delay_history_process_frame:
  "delay_history (process_frame clock s) = delay_history s @ [next_latency clock s]"
  by (simp add: process_frame_def Let_def next_latency_def)

lemma max_delay_process_frame:
  "max_delay (process_frame clock s) = std_max (max_delay s) (Finite (next_latency clock s))"
  by (simp add: process_frame_def Let_def next_latency_def)

lemma min_delay_process_frame:
  "min_delay (process_frame clock s) = std_min (min_delay s) (Finite (next_latency clock s))"
  by (simp add: process_frame_def Let_def next_latency_def)

lemma total_received_process_frame:
  "total_received (process_frame clock s) = total_received s + 1"
  by (simp add: process_frame_def Let_def)

lemma total_bytes_process_frame:
  "total_bytes (process_frame clock s) = total_bytes s"
  by (simp add: process_frame_def Let_def)

lemma displayed_process_frame:
  "displayed (process_frame clock s) = displayed s @
     [\<lparr> shown_data = unpack_data (buffer s),
        shown_current_delay = next_latency clock s,
        shown_avg_delay = accumulate (delay_avg (process_frame clock s)) 0
                          / real (length (delay_avg (process_frame clock s))),
        shown_total_bytes = total_bytes s,
        shown_buffer_size = length (buffer s) - MSG_SIZE \<rparr>]"
  by (simp add: process_frame_def Let_def next_latency_def)

lemma drain_once:
  assumes "MSG_SIZE \<le> length (buffer s)" and "length (buffer s) < 2 * MSG_SIZE"
  shows "drain clock s = process_frame clock s"
proof -
  have "\<not> MSG_SIZE \<le> length (buffer (process_frame clock s))"
    using assms by (simp add: MSG_SIZE_def)
  then have "drain clock (process_frame clock s) = process_frame clock s"
    by (simp add: drain.simps [of clock "process_frame clock s"])
  then show ?thesis
    using assms by (simp add: drain.simps [of clock s])
qed

lemma std_max_ge: "double_le a (std_max a b)"
  by (simp add: std_max_def double_le_def)

lemma std_min_le: "double_le (std_min a b) a"
  by (simp add: std_min_def double_le_def)

lemma window_step:
  assumes "length w \<le> DELAY_WINDOW"
  shows "(if DELAY_WINDOW < Suc (length w) then tl (w @ [x]) else w @ [x])
         = drop (Suc (length w) - DELAY_WINDOW) (w @ [x])"
proof (cases "DELAY_WINDOW < Suc (length w)")
  case True
  with assms have one: "Suc (length w) - DELAY_WINDOW = 1"
    by simp
  from True obtain a w' where w: "w = a # w'"
    by (cases w) (simp_all add: DELAY_WINDOW_def)
  have "tl (w @ [x]) = drop 1 (w @ [x])"
    by (simp add: w)
  with True one show ?thesis
    by simp
next
  case False
  then show ?thesis by simp
qed

lemma length_delay_avg_process_frame:
  "length (delay_avg s) \<le> DELAY_WINDOW \<Longrightarrow>
   length (delay_avg (process_frame clock s)) \<le> DELAY_WINDOW"
  by (simp add: delay_avg_process_frame)

lemma length_delay_avg_drain:
  "length (delay_avg s) \<le> DELAY_WINDOW \<Longrightarrow>
   length (delay_avg (drain clock s)) \<le> DELAY_WINDOW"
proof (induction clock s rule: drain.induct)
  case (1 clock s)
  show ?case
  proof (cases "MSG_SIZE \<le> length (buffer s)")
    case True
    with 1 show ?thesis
      by (simp add: drain.simps [of clock s] length_delay_avg_process_frame)
  next
    case False
    with 1 show ?thesis
      by (simp add: drain.simps [of clock s])
  qed
qed

lemma length_delay_avg_on_read:
  "length (delay_avg s) \<le> DELAY_WINDOW \<Longrightarrow>
   length (delay_avg (on_read clock chunk s)) \<le> DELAY_WINDOW"
  by (simp add: on_read_def length_delay_avg_drain)

lemma length_delay_avg_receive_loop:
  "length (delay_avg s) \<le> DELAY_WINDOW \<Longrightarrow>
   length (delay_avg (receive_loop clock chunks s)) \<le> DELAY_WINDOW"
  by (induction chunks arbitrary: s) (simp_all add: length_delay_avg_on_read)

lemma accumulate_snoc: "accumulate (xs @ [x]) a = accumulate xs a + x"
  by (simp add: accumulate_def)

lemma process_frame_window_last:
  "delay_avg (process_frame clock s) \<noteq> []
   \<and> last (delay_avg (process_frame clock s)) = next_latency clock s
   \<and> delay_avg (process_frame clock s)
       = butlast (delay_avg (process_frame clock s)) @ [next_latency clock s]"
proof (cases "delay_avg s")
  case Nil
  then show ?thesis
    by (simp add: delay_avg_process_frame DELAY_WINDOW_def)
next
  case (Cons a w)
  then show ?thesis
    by (simp add: delay_avg_process_frame butlast_append)
qed

section \<open>Cutting a byte sequence into records\<close>

lemma length_fixes_of: "length (fixes_of bs) = length bs div MSG_SIZE"
proof (induction bs rule: fixes_of.induct)
  case (1 bs)
  show ?case
  proof (cases "MSG_SIZE \<le> length bs")
    case True
    then have "length bs div MSG_SIZE = Suc ((length bs - MSG_SIZE) div MSG_SIZE)"
      by (simp add: MSG_SIZE_def le_div_geq)
    with True "1.IH" show ?thesis
      by (simp add: fixes_of.simps [of bs])
  next
    case False
    then show ?thesis
      by (simp add: fixes_of.simps [of bs])
  qed
qed

lemma fixes_of_short: "length bs < MSG_SIZE \<Longrightarrow> fixes_of bs = []"
  by (simp add: fixes_of.simps [of bs])

lemma fixes_of_long:
  "MSG_SIZE \<le> length bs \<Longrightarrow> fixes_of bs = unpack_data bs # fixes_of (drop MSG_SIZE bs)"
  by (simp add: fixes_of.simps [of bs])

lemma fixes_of_two:
  assumes "length bs = 2 * MSG_SIZE"
  shows "fixes_of bs = [unpack_data bs, unpack_data (drop MSG_SIZE bs)]"
proof -
  have "fixes_of (drop MSG_SIZE (drop MSG_SIZE bs)) = []"
    using assms by (intro fixes_of_short) (simp add: MSG_SIZE_def)
  moreover have "fixes_of (drop MSG_SIZE bs)
      = unpack_data (drop MSG_SIZE bs) # fixes_of (drop MSG_SIZE (drop MSG_SIZE bs))"
    using assms by (intro fixes_of_long) simp
  moreover have "fixes_of bs = unpack_data bs # fixes_of (drop MSG_SIZE bs)"
    using assms by (intro fixes_of_long) simp
  ultimately show ?thesis
    by simp
qed

lemma buffer_initial_state [simp]: "buffer initial_state = []"
  by (simp add: initial_state_def)

lemma decoded_initial_state [simp]: "decoded initial_state = []"
  by (simp add: initial_state_def decoded_def)

lemma first_short_read:
  assumes "length c1 < MSG_SIZE"
  shows "decoded (on_read clock c1 initial_state) = []"
    and "buffer (on_read clock c1 initial_state) = c1"
  using assms
  by (simp_all add: decoded_on_read buffer_on_read leftover_short fixes_of_short)

section \<open>The complete delay history\<close>

lemma last_window:
  "(if DELAY_WINDOW < Suc (length (drop (length h - DELAY_WINDOW) h))
    then tl (drop (length h - DELAY_WINDOW) h @ [x])
    else drop (length h - DELAY_WINDOW) h @ [x])
   = drop (length (h @ [x]) - DELAY_WINDOW) (h @ [x])"
proof (cases "DELAY_WINDOW \<le> length h")
  case True
  then have nonempty: "drop (length h - DELAY_WINDOW) h \<noteq> []"
    by (simp add: DELAY_WINDOW_def)
  have "tl (drop (length h - DELAY_WINDOW) h @ [x]) = drop (Suc (length h - DELAY_WINDOW)) h @ [x]"
    using nonempty by (simp add: drop_Suc tl_drop)
  also have "\<dots> = drop (length (h @ [x]) - DELAY_WINDOW) (h @ [x])"
  proof -
    have "Suc (length h - DELAY_WINDOW) = length (h @ [x]) - DELAY_WINDOW"
      using True by simp
    moreover have "length (h @ [x]) - DELAY_WINDOW \<le> length h"
      by (simp add: DELAY_WINDOW_def)
    ultimately show ?thesis
      by (simp del: length_append)
  qed
  finally show ?thesis
    using True by simp
next
  case False
  then show ?thesis by simp
qed

lemma history_kept_process_frame:
  assumes "history_kept s"
  shows "history_kept (process_frame clock s)"
proof -
  from assms have h: "delay_history s = map shown_current_delay (displayed s)"
    and w: "delay_avg s = drop (length (delay_history s) - DELAY_WINDOW) (delay_history s)"
    by (simp_all add: history_kept_def)
  have "delay_history (process_frame clock s)
        = map shown_current_delay (displayed (process_frame clock s))"
    by (simp add: delay_history_process_frame displayed_process_frame h)
  moreover have "delay_avg (process_frame clock s)
        = drop (length (delay_history (process_frame clock s)) - DELAY_WINDOW)
            (delay_history (process_frame clock s))"
    unfolding delay_avg_process_frame delay_history_process_frame
    by (subst (1 2 3) w) (rule last_window)
  ultimately show ?thesis
    by (simp add: history_kept_def)
qed

lemma history_kept_drain: "history_kept s \<Longrightarrow> history_kept (drain clock s)"
proof (induction clock s rule: drain.induct)
  case (1 clock s)
  show ?case
  proof (cases "MSG_SIZE \<le> length (buffer s)")
    case True
    with 1 show ?thesis
      by (simp add: drain.simps [of clock s] history_kept_process_frame)
  next
    case False
    with 1 show ?thesis
      by (simp add: drain.simps [of clock s])
  qed
qed

lemma history_kept_on_read: "history_kept s \<Longrightarrow> history_kept (on_read clock chunk s)"
proof -
  assume "history_kept s"
  then have "history_kept (s \<lparr> total_bytes := total_bytes s + of_nat (length chunk),
                                buffer := buffer s @ chunk \<rparr>)"
    by (simp add: history_kept_def)
  then show ?thesis
    unfolding on_read_def by (rule history_kept_drain)
qed

lemma history_kept_receive_loop:
  "history_kept s \<Longrightarrow> history_kept (receive_loop clock chunks s)"
  by (induction chunks arbitrary: s) (simp_all add: history_kept_on_read)

lemma history_kept_initial_state: "history_kept initial_state"
  by (simp add: history_kept_def initial_state_def)

section \<open>The counters\<close>

lemma total_bytes_drain: "total_bytes (drain clock s) = total_bytes s"
proof (induction clock s rule: drain.induct)
  case (1 clock s)
  show ?case
  proof (cases "MSG_SIZE \<le> length (buffer s)")
    case True
    with 1 show ?thesis
      by (simp add: drain.simps [of clock s] total_bytes_process_frame)
  next
    case False
    then show ?thesis
      by (simp add: drain.simps [of clock s])
  qed
qed

lemma total_received_drain:
  "total_received (drain clock s) = total_received s + of_nat (length (buffer s) div MSG_SIZE)"
proof (induction clock s rule: drain.induct)
  case (1 clock s)
  show ?case
  proof (cases "MSG_SIZE \<le> length (buffer s)")
    case True
    then have "length (buffer s) div MSG_SIZE = Suc ((length (buffer s) - MSG_SIZE) div MSG_SIZE)"
      by (simp add: MSG_SIZE_def le_div_geq)
    with True "1.IH" show ?thesis
      by (simp add: drain.simps [of clock s] total_received_process_frame)
  next
    case False
    then show ?thesis
      by (simp add: drain.simps [of clock s])
  qed
qed

lemma sint_of_nat_small:
  assumes "k < 2 ^ 31"
  shows "sint (of_nat k :: 32 word) = int k"
proof -
  have "int k < int (2 ^ 31)"
    using assms by (simp only: of_nat_less_iff)
  then have "int k < 2 ^ 31"
    by simp
  then have "signed_take_bit 31 (int k) = int k"
    by (intro signed_take_bit_int_eq_self) simp_all
  moreover have "(of_nat k :: 32 word) = word_of_int (int k)"
    by simp
  ultimately show ?thesis
    by (simp only: sint_sbintrunc') simp
qed

lemma uint_of_nat_small:
  assumes "k < 2 ^ 64"
  shows "uint (of_nat k :: 64 word) = int k"
proof -
  have "unat (of_nat k :: 64 word) = k"
    using assms by (simp add: unat_of_nat)
  then show ?thesis
    by (metis of_nat_unat)
qed

lemma div_add_split:
  "((n::nat) + l) div c = n div c + (n mod c + l) div c"
proof (cases "c = 0")
  case True
  then show ?thesis by simp
next
  case False
  have "n + l = c * (n div c) + (n mod c + l)"
    by simp
  then have "(n + l) div c = (c * (n div c) + (n mod c + l)) div c"
    by (rule arg_cong)
  also have "\<dots> = n div c + (n mod c + l) div c"
    using False by (rule div_mult_self4)
  finally show ?thesis .
qed

lemma counters_track_on_read:
  assumes "counters_track n s"
  shows "counters_track (n + length chunk) (on_read clock chunk s)"
proof -
  from assms have tb: "total_bytes s = of_nat n"
    and tr: "total_received s = of_nat (n div MSG_SIZE)"
    and len: "length (buffer s) = n mod MSG_SIZE"
    by (simp_all add: counters_track_def)
  have "total_bytes (on_read clock chunk s) = of_nat (n + length chunk)"
    by (simp add: on_read_def total_bytes_drain tb)
  moreover have "length (buffer (on_read clock chunk s)) = (n + length chunk) mod MSG_SIZE"
  proof -
    have "length (buffer (on_read clock chunk s)) = (n mod MSG_SIZE + length chunk) mod MSG_SIZE"
      by (simp only: buffer_on_read length_leftover length_append len)
    also have "\<dots> = (n + length chunk) mod MSG_SIZE"
      by (rule mod_add_left_eq)
    finally show ?thesis .
  qed
  moreover have "total_received (on_read clock chunk s) = of_nat ((n + length chunk) div MSG_SIZE)"
  proof -
    have "(n + length chunk) div MSG_SIZE
          = n div MSG_SIZE + (n mod MSG_SIZE + length chunk) div MSG_SIZE"
      by (rule div_add_split)
    then show ?thesis
      by (simp add: on_read_def total_received_drain tr len)
  qed
  ultimately show ?thesis
    by (simp add: counters_track_def)
qed

lemma counters_track_receive_loop:
  "[] \<notin> set chunks \<Longrightarrow> counters_track n s \<Longrightarrow>
   counters_track (n + length (concat chunks)) (receive_loop clock chunks s)"
proof (induction chunks arbitrary: n s)
  case Nil
  then show ?case by simp
next
  case (Cons c cs)
  then have c: "c \<noteq> []" and cs: "[] \<notin> set cs"
    by auto
  have "counters_track (n + length c + length (concat cs))
          (receive_loop clock cs (on_read clock c s))"
    by (rule Cons.IH [OF cs counters_track_on_read [OF Cons.prems(2)]])
  then show ?case
    using c by (simp add: add.assoc)
qed

lemma counters_track_initial_state: "counters_track 0 initial_state"
  by (simp add: counters_track_def initial_state_def)

lemma length_concat_replicate: "length (concat (replicate k c)) = k * length c"
  by (induction k) simp_all

lemma many_frames_facts:
  "[] \<notin> set many_frames" "length (concat many_frames) = 2 ^ 31 * 24"
  by (simp_all add: many_frames_def length_concat_replicate)

section \<open>Concrete inputs\<close>

lemma fix_frame_lat_bits: "float_bits_value 0x4215B021 = Some (9809953 / 262144)"
  by (simp add: float_bits_value_def ieee754_value_def Let_def)

lemma fix_frame_lon_bits: "float_bits_value 0xC2F42B02 = Some (- (8000897 / 65536))"
  by (simp add: float_bits_value_def ieee754_value_def Let_def)

lemma fix_frame_alt_bits: "float_bits_value 0x41F00000 = Some 30"
  by (simp add: float_bits_value_def ieee754_value_def Let_def)

lemma fix_frame_timestamp_bits: "double_bits_value 0x41D954FC40000000 = Some 1700000000"
  by (simp add: double_bits_value_def ieee754_value_def Let_def)

lemma fix_frame_wire:
  "length fix_frame = 24
   \<and> ntohl (memcpy_u32 fix_frame 0) = 0x4215B021
   \<and> ntohl (memcpy_u32 fix_frame 4) = 0xC2F42B02
   \<and> ntohl (memcpy_u32 fix_frame 8) = 0x41F00000
   \<and> be64toh (memcpy_u64 fix_frame 12) = 0x41D954FC40000000"
  by (simp add: fix_frame_def memcpy_u32_def memcpy_u64_def ntohl_def be64toh_def)

lemma unpack_fix_frame: "unpack_data fix_frame =
     \<lparr> lat = 1108717568, lon = 3270781696, alt = 1106247680,
       timestamp = 4744917124793761792 \<rparr>"
  by (simp add: unpack_data_def fix_frame_def memcpy_u32_def memcpy_u64_def ntohl_def
      be64toh_def float_of_u32_def double_of_u64_def round_to_precision_def
      bit_length.simps Let_def)

lemma late_frame_timestamp: "timestamp (unpack_data late_frame) = 1700000001"
  by (simp add: unpack_data_def late_frame_def memcpy_u64_def be64toh_def
      double_of_u64_def round_to_precision_def bit_length.simps Let_def)

lemma late_frame_state:
  "on_read clock late_frame initial_state =
   process_frame clock (initial_state \<lparr> total_bytes := 24, buffer := late_frame \<rparr>)"
  by (simp add: on_read_def initial_state_def drain_once late_frame_def MSG_SIZE_def)

lemma next_latency_five_samples: "next_latency (\<lambda>k. 1700000000000) five_samples = - 1000"
  by (simp add: next_latency_def five_samples_def late_frame_timestamp calculate_latency_def)

section \<open>The claims\<close>

text \<open>
  C1 (the code departs from it). The claim: a frame that carries the IEEE-754
  bit patterns of 37.422, -122.084 and 30.0 decodes to those values within
  1e-3. \<open>fix_frame\<close> is such a frame, yet \<open>unpack_data\<close> assigns the 32-bit
  integers themselves to the \<open>float\<close> fields, so the decoded latitude is
  1108717568, the longitude 3270781696 and the altitude 1106247680; the
  timestamp is the 64-bit pattern read as an integer, 4744917124793761792, and
  not the 1700000000.0 that the pattern denotes.
\<close>

theorem unpack_data_converts_numerically:
  "length fix_frame = MSG_SIZE
   \<and> float_bits_value (ntohl (memcpy_u32 fix_frame 0)) = Some (9809953 / 262144)
   \<and> \<bar>9809953 / 262144 - 37.422 :: real\<bar> \<le> 1 / 1000
   \<and> float_bits_value (ntohl (memcpy_u32 fix_frame 4)) = Some (- (8000897 / 65536))
   \<and> \<bar>- (8000897 / 65536) - (- 122.084) :: real\<bar> \<le> 1 / 1000
   \<and> float_bits_value (ntohl (memcpy_u32 fix_frame 8)) = Some 30
   \<and> double_bits_value (be64toh (memcpy_u64 fix_frame 12)) = Some 1700000000
   \<and> unpack_data fix_frame =
       \<lparr> lat = 1108717568, lon = 3270781696, alt = 1106247680,
         timestamp = 4744917124793761792 \<rparr>
   \<and> \<not> \<bar>lat (unpack_data fix_frame) - 37.422\<bar> \<le> 1 / 1000
   \<and> \<not> \<bar>lon (unpack_data fix_frame) - (- 122.084)\<bar> \<le> 1 / 1000
   \<and> \<not> \<bar>alt (unpack_data fix_frame) - 30\<bar> \<le> 1 / 1000"
  by (simp add: fix_frame_wire fix_frame_lat_bits fix_frame_lon_bits fix_frame_alt_bits fix_frame_timestamp_bits unpack_fix_frame MSG_SIZE_def)

text \<open>
  C2 (the code departs from it). The claim: the running maximum starts at
  negative infinity, so that it is the exact maximum of the delays seen, also
  when all are negative. \<open>metrics.max_delay\<close> starts at 0.0 (only
  \<open>min_delay\<close> starts at an infinity): after one record whose delay is
  -1000 ms the minimum is -1000 and the maximum is still 0.
\<close>

theorem max_delay_seeded_at_zero:
  "max_delay initial_state = Finite 0
   \<and> min_delay initial_state = PosInf
   \<and> delay_history (receive_loop (\<lambda>k. 1700000000000) [late_frame] initial_state) = [- 1000]
   \<and> min_delay (receive_loop (\<lambda>k. 1700000000000) [late_frame] initial_state) = Finite (- 1000)
   \<and> max_delay (receive_loop (\<lambda>k. 1700000000000) [late_frame] initial_state) = Finite 0"
proof -
  let ?s0 = "initial_state \<lparr> total_bytes := 24, buffer := late_frame \<rparr>"
  have run: "receive_loop (\<lambda>k. 1700000000000) [late_frame] initial_state
             = process_frame (\<lambda>k. 1700000000000) ?s0"
    by (simp add: late_frame_state) (simp add: late_frame_def)
  have lat: "next_latency (\<lambda>k. 1700000000000) ?s0 = - 1000"
    by (simp add: next_latency_def late_frame_timestamp calculate_latency_def)
  show ?thesis
    unfolding run
    by (simp add: delay_history_process_frame min_delay_process_frame
        max_delay_process_frame lat)
       (simp add: initial_state_def std_max_def std_min_def)
qed

text \<open>
  C3. Chunking invariance: for every byte sequence and every way of cutting it
  into successive non-empty chunks, reading the chunks one after the other
  decodes the same records, in the same order, as reading the whole sequence
  as one chunk. It holds from every state of the receiver, the initial one
  included.
\<close>

theorem chunking_invariance:
  assumes "[] \<notin> set chunks"
  shows "decoded (receive_loop clock chunks s)
         = decoded (receive_loop clock [concat chunks] s)"
proof (cases chunks)
  case Nil
  then show ?thesis by simp
next
  case (Cons c cs)
  with assms have c: "c \<noteq> []" and cs: "[] \<notin> set cs"
    by auto
  let ?s = "on_read clock c s"
  have "decoded (receive_loop clock chunks s) = decoded (receive_loop clock cs ?s)"
    using Cons c by simp
  also have "\<dots> = decoded ?s @ fixes_of (buffer ?s @ concat cs)"
    by (rule decoded_receive_loop [OF cs length_buffer_on_read])
  also have "\<dots> = decoded s @
      (fixes_of (buffer s @ c) @ fixes_of (leftover (buffer s @ c) @ concat cs))"
    by (simp add: decoded_on_read buffer_on_read)
  also have "\<dots> = decoded s @ fixes_of ((buffer s @ c) @ concat cs)"
    by (simp only: fixes_of_append [of "buffer s @ c" "concat cs", symmetric])
  also have "\<dots> = decoded (on_read clock (concat chunks) s)"
    using Cons by (simp add: decoded_on_read)
  also have "\<dots> = decoded (receive_loop clock [concat chunks] s)"
    using Cons c by simp
  finally show ?thesis .
qed

theorem chunking_invariance_witness:
  "[] \<notin> set [replicate 20 (7::byte), replicate 28 9] \<and>
   decoded (receive_loop (\<lambda>k. 0) [replicate 20 7, replicate 28 9] initial_state)
   = decoded (receive_loop (\<lambda>k. 0) [concat [replicate 20 7, replicate 28 9]] initial_state)"
  using chunking_invariance [of "[replicate 20 7, replicate 28 9]" "\<lambda>k. 0" initial_state]
  by simp

text \<open>
  C4. The rolling window never holds more than \<open>DELAY_WINDOW\<close> = 5 samples.
  It is empty at the start; an update of a window of at most 5 samples leaves
  at most 5, namely the last 5 of the old samples followed by the new one, in
  their order (so the 6th sample evicts the oldest); and the bound holds after
  every run of the receiver.
\<close>

theorem rolling_window_bounded:
  assumes "length (delay_avg s) \<le> DELAY_WINDOW"
  shows "delay_avg initial_state = []
   \<and> DELAY_WINDOW = 5
   \<and> length (delay_avg (process_frame clock s)) \<le> DELAY_WINDOW
   \<and> delay_avg (process_frame clock s)
       = drop (Suc (length (delay_avg s)) - DELAY_WINDOW) (delay_avg s @ [next_latency clock s])
   \<and> length (delay_avg (receive_loop clock chunks initial_state)) \<le> DELAY_WINDOW"
proof -
  have "length (delay_avg initial_state) \<le> DELAY_WINDOW"
    by (simp add: initial_state_def)
  then have "length (delay_avg (receive_loop clock chunks initial_state)) \<le> DELAY_WINDOW"
    by (rule length_delay_avg_receive_loop)
  moreover have "delay_avg (process_frame clock s)
       = drop (Suc (length (delay_avg s)) - DELAY_WINDOW) (delay_avg s @ [next_latency clock s])"
    using window_step [OF assms] by (simp only: delay_avg_process_frame)
  moreover have "length (delay_avg (process_frame clock s)) \<le> DELAY_WINDOW"
    using assms by (rule length_delay_avg_process_frame)
  ultimately show ?thesis
    by (simp add: initial_state_def DELAY_WINDOW_def)
qed

theorem rolling_window_bounded_witness:
  "length (delay_avg five_samples) \<le> DELAY_WINDOW
   \<and> delay_avg (process_frame (\<lambda>k. 1700000000000) five_samples) = [20, 30, 40, 50, - 1000]"
  using rolling_window_bounded [of five_samples "\<lambda>k. 1700000000000" "[]"]
  by (simp add: next_latency_five_samples) (simp add: five_samples_def DELAY_WINDOW_def)

text \<open>
  C5. After every read has been appended and the buffer drained, fewer than
  \<open>MSG_SIZE\<close> = 24 bytes remain buffered: between 0 and 23.
\<close>

theorem remainder_below_frame_size:
  "length (buffer (on_read clock chunk s)) < MSG_SIZE
   \<and> length (buffer (on_read clock chunk s)) \<le> 23"
  using length_buffer_on_read [of clock chunk s] by (simp add: MSG_SIZE_def)

text \<open>
  C6. When the receipt time is earlier than the decoded send timestamp the
  delay is negative, and that value is what the update appends to the rolling
  window, adds into the average it displays, displays as current delay,
  appends to the history and offers to the running minimum: it is neither
  rejected nor clamped.
\<close>

theorem negative_delay_kept:
  assumes "real_of_int (clock (clock_reads s)) / 1000 < timestamp (unpack_data (buffer s))"
  shows "next_latency clock s < 0
   \<and> last (delay_avg (process_frame clock s)) = next_latency clock s
   \<and> delay_avg (process_frame clock s) \<noteq> []
   \<and> shown_current_delay (last (displayed (process_frame clock s))) = next_latency clock s
   \<and> shown_avg_delay (last (displayed (process_frame clock s)))
       = (accumulate (butlast (delay_avg (process_frame clock s))) 0 + next_latency clock s)
         / real (length (delay_avg (process_frame clock s)))
   \<and> last (delay_history (process_frame clock s)) = next_latency clock s
   \<and> min_delay (process_frame clock s) = std_min (min_delay s) (Finite (next_latency clock s))"
proof -
  have neg: "next_latency clock s < 0"
    using assms by (simp add: next_latency_def calculate_latency_def)
  have "accumulate (delay_avg (process_frame clock s)) 0
        = accumulate (butlast (delay_avg (process_frame clock s))) 0 + next_latency clock s"
    using process_frame_window_last [of clock s] accumulate_snoc by metis
  then show ?thesis
    using neg process_frame_window_last [of clock s]
    by (simp add: displayed_process_frame delay_history_process_frame min_delay_process_frame)
qed

theorem negative_delay_kept_witness:
  "real_of_int 1700000000000 / 1000 < timestamp (unpack_data (buffer five_samples))
   \<and> shown_current_delay (last (displayed (process_frame (\<lambda>k. 1700000000000) five_samples)))
       = - 1000
   \<and> last (delay_avg (process_frame (\<lambda>k. 1700000000000) five_samples)) = - 1000"
proof -
  have late: "real_of_int 1700000000000 / 1000 < timestamp (unpack_data (buffer five_samples))"
    by (simp add: five_samples_def late_frame_timestamp)
  show ?thesis
    using late negative_delay_kept [of "\<lambda>k. 1700000000000" five_samples]
    by (simp add: next_latency_five_samples)
qed

text \<open>
  C7 (amended). A read of 20 bytes followed by a read of 28 bytes: the first
  read decodes nothing and buffers its 20 bytes; the second completes 48 bytes
  and decodes two records, not one, leaving nothing buffered.
\<close>

theorem straddling_reads_decode_two:
  assumes "length c1 = 20" and "length c2 = 28"
  shows "decoded (on_read clock c1 initial_state) = []
   \<and> buffer (on_read clock c1 initial_state) = c1
   \<and> decoded (on_read clock c2 (on_read clock c1 initial_state))
       = [unpack_data (c1 @ c2), unpack_data (drop MSG_SIZE (c1 @ c2))]
   \<and> buffer (on_read clock c2 (on_read clock c1 initial_state)) = []"
proof -
  let ?s1 = "on_read clock c1 initial_state"
  have short: "length c1 < MSG_SIZE"
    using assms by (simp add: MSG_SIZE_def)
  note first = first_short_read [OF short, of clock]
  have two: "length (c1 @ c2) = 2 * MSG_SIZE"
    using assms by (simp add: MSG_SIZE_def)
  have "buffer (on_read clock c2 ?s1) = leftover (buffer ?s1 @ c2)"
    by (rule buffer_on_read)
  also have "\<dots> = leftover (c1 @ c2)"
    by (simp only: first)
  also have "\<dots> = []"
    using assms by (simp add: leftover_def MSG_SIZE_def)
  finally have "buffer (on_read clock c2 ?s1) = []" .
  moreover have "decoded (on_read clock c2 ?s1) = decoded ?s1 @ fixes_of (buffer ?s1 @ c2)"
    by (rule decoded_on_read)
  then have "decoded (on_read clock c2 ?s1)
      = [unpack_data (c1 @ c2), unpack_data (drop MSG_SIZE (c1 @ c2))]"
    by (simp only: first fixes_of_two [OF two] append_Nil)
  ultimately show ?thesis
    using first by simp
qed

theorem straddling_reads_decode_two_witness:
  "length (replicate 20 (7::byte)) = 20 \<and> length (replicate 28 (9::byte)) = 28
   \<and> length (decoded (on_read (\<lambda>k. 0) (replicate 28 9)
        (on_read (\<lambda>k. 0) (replicate 20 7) initial_state))) = 2"
  using straddling_reads_decode_two [of "replicate 20 7" "replicate 28 9" "\<lambda>k. 0"]
  by simp

text \<open>The claim as stated, one record after the second read, fails.\<close>

theorem straddling_reads_not_one:
  "\<not> (length (decoded (on_read (\<lambda>k. 0) (replicate 28 0)
          (on_read (\<lambda>k. 0) (replicate 20 0) initial_state))) = 1
      \<and> length (buffer (on_read (\<lambda>k. 0) (replicate 28 0)
          (on_read (\<lambda>k. 0) (replicate 20 0) initial_state))) = 0)"
proof -
  have short: "length (replicate 20 (0::byte)) < MSG_SIZE"
    by (simp add: MSG_SIZE_def)
  note first = first_short_read [OF short, of "\<lambda>k. 0"]
  have "length (decoded (on_read (\<lambda>k. 0) (replicate 28 0)
          (on_read (\<lambda>k. 0) (replicate 20 0) initial_state))) = 2"
    by (simp add: decoded_on_read first length_fixes_of MSG_SIZE_def)
  then show ?thesis
    by simp
qed

text \<open>
  C8 (amended). The rolling window holds at most 5 samples, but it is not the
  only history of delay samples in the receiver's state: after every run,
  \<open>metrics.delay_history\<close> holds the delay of every record decoded so far, one
  per record, in order and never trimmed, and the rolling window is its last
  5 entries.
\<close>

theorem full_history_retained:
  "delay_history (receive_loop clock chunks initial_state)
     = map shown_current_delay (displayed (receive_loop clock chunks initial_state))
   \<and> length (delay_history (receive_loop clock chunks initial_state))
     = length (decoded (receive_loop clock chunks initial_state))
   \<and> delay_avg (receive_loop clock chunks initial_state)
     = drop (length (delay_history (receive_loop clock chunks initial_state)) - DELAY_WINDOW)
         (delay_history (receive_loop clock chunks initial_state))
   \<and> length (delay_avg (receive_loop clock chunks initial_state)) \<le> DELAY_WINDOW
   \<and> DELAY_WINDOW = 5"
proof -
  have "length (delay_avg initial_state) \<le> DELAY_WINDOW"
    by (simp add: initial_state_def)
  then have "length (delay_avg (receive_loop clock chunks initial_state)) \<le> DELAY_WINDOW"
    by (rule length_delay_avg_receive_loop)
  then show ?thesis
    using history_kept_receive_loop [OF history_kept_initial_state, of clock chunks]
    by (simp add: history_kept_def decoded_def DELAY_WINDOW_def)
qed

text \<open>The claim as stated fails after six records: the history holds six samples.\<close>

theorem history_exceeds_window:
  "\<not> length (delay_history (receive_loop (\<lambda>k. 0) [replicate 144 0] initial_state))
      \<le> DELAY_WINDOW"
proof -
  let ?s = "receive_loop (\<lambda>k. 0) [replicate 144 0] initial_state"
  have "history_kept ?s"
    by (rule history_kept_receive_loop [OF history_kept_initial_state])
  then have "length (delay_history ?s) = length (decoded ?s)"
    by (simp add: history_kept_def decoded_def)
  also have "?s = on_read (\<lambda>k. 0) (replicate 144 0) initial_state"
    by simp
  also have "length (decoded (on_read (\<lambda>k. 0) (replicate 144 0) initial_state)) = 6"
    by (simp add: decoded_on_read length_fixes_of MSG_SIZE_def)
  finally show ?thesis
    by (simp add: DELAY_WINDOW_def)
qed

text \<open>
  C9. Over successive updates the running maximum never decreases and the
  running minimum never increases: from any state to the state after one
  update, and from that to the state after the next.
\<close>

theorem extrema_monotone:
  "double_le (max_delay s) (max_delay (process_frame clock s))
   \<and> double_le (min_delay (process_frame clock s)) (min_delay s)
   \<and> double_le (max_delay (process_frame clock s))
        (max_delay (process_frame clock (process_frame clock s)))
   \<and> double_le (min_delay (process_frame clock (process_frame clock s)))
        (min_delay (process_frame clock s))"
  by (simp add: max_delay_process_frame min_delay_process_frame std_max_ge std_min_le)

text \<open>
  C10 (amended). While fewer than \<open>2 ^ 31\<close> records have been received,
  that is while the bytes read number less than \<open>24 * 2 ^ 31\<close>, the counters
  agree whenever the inner loop has finished: \<open>total_received * 24\<close> plus the
  buffered length is \<open>total_bytes\<close>, \<open>total_received\<close> is \<open>total_bytes div 24\<close>
  and the buffered length is \<open>total_bytes mod 24\<close>.
\<close>

theorem counters_agree_below_overflow:
  assumes "[] \<notin> set chunks" and "length (concat chunks) < MSG_SIZE * 2 ^ 31"
  shows "sint (total_received (receive_loop clock chunks initial_state)) * 24
           + int (length (buffer (receive_loop clock chunks initial_state)))
         = uint (total_bytes (receive_loop clock chunks initial_state))
   \<and> sint (total_received (receive_loop clock chunks initial_state))
         = uint (total_bytes (receive_loop clock chunks initial_state)) div 24
   \<and> int (length (buffer (receive_loop clock chunks initial_state)))
         = uint (total_bytes (receive_loop clock chunks initial_state)) mod 24
   \<and> uint (total_bytes (receive_loop clock chunks initial_state))
         = int (length (concat chunks))"
proof -
  let ?n = "length (concat chunks)"
  let ?s = "receive_loop clock chunks initial_state"
  have "counters_track (0 + ?n) ?s"
    by (rule counters_track_receive_loop [OF assms(1) counters_track_initial_state])
  then have tb: "total_bytes ?s = of_nat ?n"
    and tr: "total_received ?s = of_nat (?n div 24)"
    and len: "length (buffer ?s) = ?n mod 24"
    by (simp_all add: counters_track_def MSG_SIZE_def)
  have "?n div 24 < 2 ^ 31"
    using assms(2) by (simp add: MSG_SIZE_def)
  then have s: "sint (total_received ?s) = int (?n div 24)"
    unfolding tr by (rule sint_of_nat_small)
  have "?n < 2 ^ 64"
    using assms(2) by (simp add: MSG_SIZE_def)
  then have u: "uint (total_bytes ?s) = int ?n"
    unfolding tb by (rule uint_of_nat_small)
  show ?thesis
    unfolding s u len by (simp add: zdiv_int zmod_int)
qed

theorem counters_agree_below_overflow_witness:
  "[] \<notin> set [replicate 20 (7::byte), replicate 28 9]
   \<and> length (concat [replicate 20 (7::byte), replicate 28 9]) < MSG_SIZE * 2 ^ 31
   \<and> sint (total_received (receive_loop (\<lambda>k. 0) [replicate 20 7, replicate 28 9] initial_state)) = 2
   \<and> uint (total_bytes (receive_loop (\<lambda>k. 0) [replicate 20 7, replicate 28 9] initial_state)) = 48"
  using counters_agree_below_overflow [of "[replicate 20 7, replicate 28 9]" "\<lambda>k. 0"]
  by (simp add: MSG_SIZE_def)

text \<open>
  The claim as stated, at every point, fails once the 32-bit \<open>total_received\<close>
  has overflowed: after \<open>2 ^ 31\<close> records it reads \<open>- 2 ^ 31\<close>.
\<close>

theorem counters_disagree_after_overflow:
  "\<not> (sint (total_received (receive_loop (\<lambda>k. 0) many_frames initial_state)) * 24
        + int (length (buffer (receive_loop (\<lambda>k. 0) many_frames initial_state)))
      = uint (total_bytes (receive_loop (\<lambda>k. 0) many_frames initial_state)))"
proof -
  let ?s = "receive_loop (\<lambda>k. 0) many_frames initial_state"
  have "counters_track (0 + length (concat many_frames)) ?s"
    by (rule counters_track_receive_loop [OF many_frames_facts(1) counters_track_initial_state])
  then have tb: "total_bytes ?s = of_nat (2 ^ 31 * 24)"
    and tr: "total_received ?s = of_nat (2 ^ 31)"
    and len: "length (buffer ?s) = 0"
    by (simp_all add: counters_track_def MSG_SIZE_def many_frames_facts(2))
  have "sint (total_received ?s) = - (2 ^ 31)"
    unfolding tr by simp
  moreover have "uint (total_bytes ?s) = 2 ^ 31 * 24"
    unfolding tb by simp
  ultimately show ?thesis
    using len by simp
qed

end
